theory Spec2Isabelle
  imports Main
begin

section \<open>Values, exceptions and the outside world\<close>

text \<open>
  The program is \<^verbatim>\<open>src/type_pilot.py\<close>: a class \<^verbatim>\<open>WebResearchAssistant\<close> whose methods
  query a search provider, fetch and clean the result pages, join the cleaned texts and
  send them to a text-generation service.

  What the methods print is not modelled: no property below is about the console. An
  \<^verbatim>\<open>await\<close> is a call whose result the caller waits for; only \<^verbatim>\<open>asyncio.gather\<close> runs
  tasks concurrently, and its model says so.

  A Python string is modelled as a \<^typ>\<open>string\<close>; a character of the model stands for a
  code point below 256. Decoded JSON is a Python value: \<^verbatim>\<open>None\<close>, a bool, an int, a
  float, a str, a list or a dict. The code never computes with a float, so a float is kept
  as the literal it was read from. A dict is an association list in insertion order that is
  read with \<^const>\<open>map_of\<close>.
\<close>

datatype json =
    JNull
  | JBool bool
  | JInt int
  | JFloat string
  | JStr string
  | JList "json list"
  | JDict "(string \<times> json) list"

text \<open>
  The exceptions that can occur, all of them subclasses of Python's \<^verbatim>\<open>Exception\<close>.
  The first group is raised by the libraries (aiohttp, requests, the JSON decoder, the text
  decoder, the HTML parser); the second group is raised by the operations of the code itself
  on a value of the wrong shape.
\<close>

datatype exn =
    ClientError
  | TimeoutError
  | RequestException
  | ContentTypeError
  | JSONDecodeError
  | UnicodeDecodeError
  | ParserRejectedMarkup
  | AttributeError
  | TypeError
  | KeyError
  | IndexError

text \<open>
  A request as the code builds it: \<^verbatim>\<open>session.get(url, headers=..., params=..., timeout=...)\<close>
  of aiohttp and \<^verbatim>\<open>requests.post(url, json=..., headers=...)\<close>. A header value is
  \<^verbatim>\<open>os.getenv(...)\<close>, which is \<^verbatim>\<open>None\<close> when the variable is not set. The URL of a page
  request is whatever value the search result holds under \<^verbatim>\<open>'url'\<close>.
\<close>

datatype verb = GET | POST

record request =
  req_verb :: verb
  req_url :: json
  req_headers :: "(string \<times> string option) list"
  req_params :: "(string \<times> json) list"
  req_json :: "json option"
  req_timeout :: "nat option"

text \<open>
  A response: its status, and what reading its body as text (\<^verbatim>\<open>response.text()\<close>) or as
  JSON (\<^verbatim>\<open>response.json()\<close>) gives, each of which may raise.
\<close>

record response =
  status :: int
  body_text :: "exn + string"
  body_json :: "exn + json"

text \<open>
  The document tree that \<^verbatim>\<open>BeautifulSoup(html, 'html.parser')\<close> builds: text nodes and
  tags. A tag is a Python object, so it has an identity (the number), a name and its
  contents. Comments and doctype nodes carry no page text and are left out.
\<close>

datatype node =
    Text string
  | Tag nat string "node list"

text \<open>
  What the code does not control: the network (a request either raises or gives a
  response) and the HTML parser of the library (a parse either raises or gives the
  contents of the document).
\<close>

record world =
  http :: "request \<Rightarrow> exn + response"
  html_parser :: "string \<Rightarrow> exn + node list"

text \<open>The object: \<^verbatim>\<open>__init__\<close> reads two keys from the process environment.\<close>

record assistant =
  bing_api_key :: "string option"
  gemini_api_key :: "string option"

section \<open>Python operations the code uses\<close>

text \<open>\<^verbatim>\<open>x.get(key, default)\<close>: only a dict has the method.\<close>

fun py_get :: "json \<Rightarrow> string \<Rightarrow> json \<Rightarrow> exn + json" where
  "py_get (JDict d) k dflt = Inr (case map_of d k of Some v \<Rightarrow> v | None \<Rightarrow> dflt)"
| "py_get _ k dflt = Inl AttributeError"

text \<open>
  \<^verbatim>\<open>for result in x\<close>: a list gives its items, a dict its keys, a str its characters;
  nothing else is iterable.
\<close>

fun py_iter :: "json \<Rightarrow> exn + json list" where
  "py_iter (JList xs) = Inr xs"
| "py_iter (JDict d) = Inr (map (\<lambda>kv. JStr (fst kv)) d)"
| "py_iter (JStr s) = Inr (map (\<lambda>c. JStr [c]) s)"
| "py_iter _ = Inl TypeError"

text \<open>\<^verbatim>\<open>x[key]\<close> with a str key.\<close>

fun py_getitem :: "json \<Rightarrow> string \<Rightarrow> exn + json" where
  "py_getitem (JDict d) k = (case map_of d k of Some v \<Rightarrow> Inr v | None \<Rightarrow> Inl KeyError)"
| "py_getitem _ k = Inl TypeError"

text \<open>\<^verbatim>\<open>x[0]\<close>. The keys of a decoded JSON object are strings, so a dict has no key 0.\<close>

fun py_first :: "json \<Rightarrow> exn + json" where
  "py_first (JList xs) = (case xs of [] \<Rightarrow> Inl IndexError | x # _ \<Rightarrow> Inr x)"
| "py_first (JStr s) = (case s of [] \<Rightarrow> Inl IndexError | c # _ \<Rightarrow> Inr (JStr [c]))"
| "py_first (JDict d) = Inl KeyError"
| "py_first _ = Inl TypeError"

text \<open>\<^verbatim>\<open>sep.join(xs)\<close>.\<close>

fun py_join :: "string \<Rightarrow> string list \<Rightarrow> string" where
  "py_join sep [] = []"
| "py_join sep [x] = x"
| "py_join sep (x # y # ys) = x @ sep @ py_join sep (y # ys)"

text \<open>
  Whitespace as \<^verbatim>\<open>str.split()\<close> and \<^verbatim>\<open>str.strip()\<close> see it, for the code points below 256:
  tab to carriage return, the four separators 28 to 31, the space, and the code points 133
  and 160.
\<close>

definition py_isspace :: "char \<Rightarrow> bool" where
  "py_isspace c =
     (let n = (of_char c :: nat)
      in (9 \<le> n \<and> n \<le> 13) \<or> (28 \<le> n \<and> n \<le> 32) \<or> n = 133 \<or> n = 160)"

text \<open>\<^verbatim>\<open>s.strip()\<close>: the string without its leading and trailing whitespace.\<close>

definition py_strip :: "string \<Rightarrow> string" where
  "py_strip s = rev (dropWhile py_isspace (rev (dropWhile py_isspace s)))"

text \<open>
  \<^verbatim>\<open>s.split()\<close>, as the interpreter does it: skip whitespace, stop at the end of the
  string, otherwise take the characters up to the next whitespace as a word and go on
  behind it.
\<close>

function py_split :: "string \<Rightarrow> string list" where
  "py_split s =
     (case dropWhile py_isspace s of
        [] \<Rightarrow> []
      | c # cs \<Rightarrow>
          takeWhile (\<lambda>x. \<not> py_isspace x) (c # cs)
            # py_split (dropWhile (\<lambda>x. \<not> py_isspace x) (c # cs)))"
  by pat_completeness auto
termination
proof (relation "measure length")
  show "wf (measure length)"
    by simp
next
  fix s :: string and c cs
  assume eq: "dropWhile py_isspace s = c # cs"
  have "\<not> py_isspace c"
    using eq hd_dropWhile [of py_isspace s] by fastforce
  then have "length (dropWhile (\<lambda>x. \<not> py_isspace x) (c # cs)) \<le> length cs"
    by (simp add: length_dropWhile_le)
  moreover have "length (c # cs) \<le> length s"
    using eq length_dropWhile_le [of py_isspace s] by simp
  ultimately show "(dropWhile (\<lambda>x. \<not> py_isspace x) (c # cs), s) \<in> measure length"
    by simp
qed

declare py_split.simps [simp del]

text \<open>\<^verbatim>\<open>bool(s)\<close> of a str: it is not empty.\<close>

definition py_bool :: "string \<Rightarrow> bool" where
  "py_bool s = (s \<noteq> [])"

section \<open>The document tree\<close>

text \<open>
  \<^verbatim>\<open>soup([names])\<close> is \<^verbatim>\<open>find_all\<close>: every tag of the document with one of the names,
  in document order, a tag inside a found tag included. The result is a list of tag objects,
  here of their identities.
\<close>

fun find_all_node :: "string list \<Rightarrow> node \<Rightarrow> nat list" where
  "find_all_node names (Text s) = []"
| "find_all_node names (Tag i name contents) =
     (if name \<in> set names then [i] else []) @ concat (map (find_all_node names) contents)"

definition find_all :: "string list \<Rightarrow> node list \<Rightarrow> nat list" where
  "find_all names soup = concat (map (find_all_node names) soup)"

text \<open>
  \<^verbatim>\<open>tag.decompose()\<close> takes the tag out of the contents of its parent, with everything
  below it. On a tag that went with an ancestor before it changes nothing.
\<close>

fun decompose_node :: "nat \<Rightarrow> node \<Rightarrow> node list" where
  "decompose_node i (Text s) = [Text s]"
| "decompose_node i (Tag j name contents) =
     (if i = j then [] else [Tag j name (concat (map (decompose_node i) contents))])"

definition decompose :: "nat \<Rightarrow> node list \<Rightarrow> node list" where
  "decompose i soup = concat (map (decompose_node i) soup)"

text \<open>The strings of the document, in document order.\<close>

fun strings_of :: "node \<Rightarrow> string list" where
  "strings_of (Text s) = [s]"
| "strings_of (Tag i name contents) = concat (map strings_of contents)"

definition all_strings :: "node list \<Rightarrow> string list" where
  "all_strings soup = concat (map strings_of soup)"

text \<open>
  \<^verbatim>\<open>soup.get_text(separator, strip)\<close>: the strings joined by the separator; with
  \<^verbatim>\<open>strip=True\<close> each string is stripped first and left out when nothing remains.
\<close>

definition get_text :: "string \<Rightarrow> bool \<Rightarrow> node list \<Rightarrow> string" where
  "get_text separator strip soup =
     py_join separator
       (if strip then filter py_bool (map py_strip (all_strings soup))
        else all_strings soup)"

section \<open>The Search Client\<close>

text \<open>A search result is the dict \<^verbatim>\<open>{"url": ..., "title": ...}\<close>.\<close>

type_synonym search_result = "(string \<times> json) list"

definition search_request :: "assistant \<Rightarrow> string \<Rightarrow> request" where
  "search_request self query =
     \<lparr> req_verb = GET,
       req_url = JStr ''https://api.bing.microsoft.com/v7.0/search'',
       req_headers = [(''Ocp-Apim-Subscription-Key'', bing_api_key self)],
       req_params = [(''q'', JStr query), (''count'', JInt 10)],
       req_json = None,
       req_timeout = None \<rparr>"

text \<open>
  The list comprehension of \<^verbatim>\<open>search_bing\<close>: for each entry, \<^verbatim>\<open>result.get("url", "")\<close>
  and then \<^verbatim>\<open>result.get("name", "")\<close>; the first exception ends it.
\<close>

fun search_results_of :: "json list \<Rightarrow> exn + search_result list" where
  "search_results_of [] = Inr []"
| "search_results_of (result # rest) =
     (case py_get result ''url'' (JStr '''') of
        Inl e \<Rightarrow> Inl e
      | Inr u \<Rightarrow>
          (case py_get result ''name'' (JStr '''') of
             Inl e \<Rightarrow> Inl e
           | Inr t \<Rightarrow>
               (case search_results_of rest of
                  Inl e \<Rightarrow> Inl e
                | Inr rs \<Rightarrow> Inr ([(''url'', u), (''title'', t)] # rs))))"

text \<open>
  \<^verbatim>\<open>search_bing\<close> has no \<^verbatim>\<open>try\<close>: an exception of the request, of
  \<^verbatim>\<open>response.json()\<close> or of the extraction leaves the method.
\<close>

definition search_bing :: "assistant \<Rightarrow> world \<Rightarrow> string \<Rightarrow> exn + search_result list" where
  "search_bing self w query =
     (case http w (search_request self query) of
        Inl e \<Rightarrow> Inl e
      | Inr resp \<Rightarrow>
          if status resp = 200 then
            (case body_json resp of
               Inl e \<Rightarrow> Inl e
             | Inr data \<Rightarrow>
                 (case py_get data ''webPages'' (JDict []) of
                    Inl e \<Rightarrow> Inl e
                  | Inr pages \<Rightarrow>
                      (case py_get pages ''value'' (JList []) of
                         Inl e \<Rightarrow> Inl e
                       | Inr v \<Rightarrow>
                           (case py_iter v of
                              Inl e \<Rightarrow> Inl e
                            | Inr entries \<Rightarrow> search_results_of entries))))
          else Inr [])"

section \<open>The Page Fetcher and the Content Extractor\<close>

text \<open>
  The cleaning inside \<^verbatim>\<open>fetch_webpage_content\<close>, from the parsed document on: decompose
  every tag that \<^verbatim>\<open>soup(["script", "style", "nav", "header", "footer"])\<close> found, one after
  the other, take the text with \<^verbatim>\<open>get_text(separator=' ', strip=True)\<close>, and join its
  words with single spaces.
\<close>

definition removed_names :: "string list" where
  "removed_names = [''script'', ''style'', ''nav'', ''header'', ''footer'']"

definition extract_text :: "node list \<Rightarrow> string" where
  "extract_text soup =
     (let soup' = fold decompose (find_all removed_names soup) soup;
          text = get_text '' '' True soup'
      in py_join '' '' (py_split text))"

definition page_request :: "json \<Rightarrow> request" where
  "page_request url =
     \<lparr> req_verb = GET, req_url = url, req_headers = [], req_params = [],
       req_json = None, req_timeout = Some 10 \<rparr>"

text \<open>The body of the \<^verbatim>\<open>try\<close> statement of \<^verbatim>\<open>fetch_webpage_content\<close>.\<close>

definition fetch_webpage_content_try :: "world \<Rightarrow> json \<Rightarrow> exn + string" where
  "fetch_webpage_content_try w url =
     (case http w (page_request url) of
        Inl e \<Rightarrow> Inl e
      | Inr resp \<Rightarrow>
          if status resp = 200 then
            (case body_text resp of
               Inl e \<Rightarrow> Inl e
             | Inr html \<Rightarrow>
                 (case html_parser w html of
                    Inl e \<Rightarrow> Inl e
                  | Inr soup \<Rightarrow> Inr (extract_text soup)))
          else Inr '''')"

text \<open>The whole method: \<^verbatim>\<open>except Exception\<close> returns the empty string.\<close>

definition fetch_webpage_content :: "world \<Rightarrow> json \<Rightarrow> exn + string" where
  "fetch_webpage_content w url =
     (case fetch_webpage_content_try w url of
        Inl e \<Rightarrow> Inr ''''
      | Inr text \<Rightarrow> Inr text)"

section \<open>The Aggregator\<close>

text \<open>
  \<^verbatim>\<open>asyncio.gather(*tasks)\<close>. The tasks run concurrently and complete in an order the code
  does not choose: \<open>order\<close> lists the positions of the tasks as they complete. The result
  of a task goes to the slot of its position; the first task that raises makes the gather
  raise; when no task is left to complete the gather returns the slots, and it never
  returns (\<^const>\<open>None\<close>) while a slot is empty.
\<close>

fun gather_run :: "nat list \<Rightarrow> (exn + 'a) list \<Rightarrow> 'a option list \<Rightarrow> (exn + 'a list) option" where
  "gather_run [] tasks slots = map_option Inr (those slots)"
| "gather_run (i # order) tasks slots =
     (if i < length tasks then
        (case tasks ! i of
           Inl e \<Rightarrow> Some (Inl e)
         | Inr v \<Rightarrow> gather_run order tasks (slots[i := Some v]))
      else gather_run order tasks slots)"

definition gather :: "nat list \<Rightarrow> (exn + 'a) list \<Rightarrow> (exn + 'a list) option" where
  "gather order tasks = gather_run order tasks (replicate (length tasks) None)"

text \<open>
  The list comprehension that builds the tasks evaluates \<^verbatim>\<open>result['url']\<close> for each
  result; a result without that key raises \<^verbatim>\<open>KeyError\<close>.
\<close>

fun task_urls :: "search_result list \<Rightarrow> exn + json list" where
  "task_urls [] = Inr []"
| "task_urls (result # rest) =
     (case map_of result ''url'' of
        None \<Rightarrow> Inl KeyError
      | Some u \<Rightarrow>
          (case task_urls rest of
             Inl e \<Rightarrow> Inl e
           | Inr us \<Rightarrow> Inr (u # us)))"

definition parallel_webpage_scraping ::
  "world \<Rightarrow> nat list \<Rightarrow> search_result list \<Rightarrow> (exn + string) option" where
  "parallel_webpage_scraping w order search_results =
     (case task_urls search_results of
        Inl e \<Rightarrow> Some (Inl e)
      | Inr urls \<Rightarrow>
          (case gather order (map (fetch_webpage_content w) urls) of
             None \<Rightarrow> None
           | Some (Inl e) \<Rightarrow> Some (Inl e)
           | Some (Inr contents) \<Rightarrow> Some (Inr (py_join '' '' (filter py_bool contents)))))"

section \<open>The Summarizer\<close>

text \<open>The f-string of the payload: five lines of instruction, then the text.\<close>

definition instruction :: string where
  "instruction =
     ''Summarize this text in exactly 300 words. \<newline>'' @
     ''                    Extract and highlight key numbers, statistics, and important details.\<newline>'' @
     ''                    Ensure the summary is concise, clear, and captures the most significant information.\<newline>'' @
     ''                    \<newline>'' @
     ''                    Text to summarize:\<newline>'' @
     ''                    ''"

definition prompt :: "string \<Rightarrow> string" where
  "prompt text = instruction @ text"

definition payload :: "string \<Rightarrow> json" where
  "payload text =
     JDict [(''contents'', JList [JDict [(''parts'', JList [JDict [(''text'', JStr (prompt text))]])]])]"

definition summarize_request :: "assistant \<Rightarrow> string \<Rightarrow> request" where
  "summarize_request self text =
     \<lparr> req_verb = POST,
       req_url = JStr ''https://generativelanguage.googleapis.com/v1beta/models/gemini-1.5-flash-latest:generateContent'',
       req_headers = [(''Content-Type'', Some ''application/json''),
                      (''x-goog-api-key'', gemini_api_key self)],
       req_params = [],
       req_json = Some (payload text),
       req_timeout = None \<rparr>"

text \<open>A chain of subscripts \<^verbatim>\<open>x[s1][s2]...\<close>, each a str key or the index 0.\<close>

datatype subscript = Key string | Index0

fun py_subscript :: "json \<Rightarrow> subscript \<Rightarrow> exn + json" where
  "py_subscript x (Key k) = py_getitem x k"
| "py_subscript x Index0 = py_first x"

fun py_subscripts :: "json \<Rightarrow> subscript list \<Rightarrow> exn + json" where
  "py_subscripts x [] = Inr x"
| "py_subscripts x (s # ss) =
     (case py_subscript x s of
        Inl e \<Rightarrow> Inl e
      | Inr y \<Rightarrow> py_subscripts y ss)"

text \<open>
  \<^verbatim>\<open>summarize_with_gemini\<close> has no \<^verbatim>\<open>try\<close> either. With status 200 it returns
  \<^verbatim>\<open>result['candidates'][0]['content']['parts'][0]['text']\<close>, whatever value that is.
\<close>

definition summarize_with_gemini :: "assistant \<Rightarrow> world \<Rightarrow> string \<Rightarrow> exn + json" where
  "summarize_with_gemini self w text =
     (case http w (summarize_request self text) of
        Inl e \<Rightarrow> Inl e
      | Inr resp \<Rightarrow>
          if status resp = 200 then
            (case body_json resp of
               Inl e \<Rightarrow> Inl e
             | Inr result \<Rightarrow>
                 py_subscripts result
                   [Key ''candidates'', Index0, Key ''content'', Key ''parts'', Index0, Key ''text''])
          else Inr (JStr ''''))"

section \<open>The Orchestrator\<close>

text \<open>
  \<^verbatim>\<open>research_and_summarize\<close> calls three methods of \<^verbatim>\<open>self\<close>, one after the other. The
  methods are looked up on the object when they are called, so the body is given for any
  three methods; the class binds them to its own.
\<close>

definition research_and_summarize_body ::
  "(string \<Rightarrow> exn + search_result list) \<Rightarrow> (search_result list \<Rightarrow> (exn + string) option) \<Rightarrow>
   (string \<Rightarrow> exn + json) \<Rightarrow> string \<Rightarrow> (exn + json) option" where
  "research_and_summarize_body search scrape summarize query =
     (case search query of
        Inl e \<Rightarrow> Some (Inl e)
      | Inr search_results \<Rightarrow>
          (case scrape search_results of
             None \<Rightarrow> None
           | Some (Inl e) \<Rightarrow> Some (Inl e)
           | Some (Inr scraped_content) \<Rightarrow> Some (summarize scraped_content)))"

definition research_and_summarize ::
  "assistant \<Rightarrow> world \<Rightarrow> nat list \<Rightarrow> string \<Rightarrow> (exn + json) option" where
  "research_and_summarize self w order query =
     research_and_summarize_body (search_bing self w) (parallel_webpage_scraping w order)
       (summarize_with_gemini self w) query"

section \<open>Notions used to state the properties\<close>

text \<open>The value an entry holds under a key, the empty string when the key is missing.\<close>

definition field_or_empty :: "(string \<times> json) list \<Rightarrow> string \<Rightarrow> json" where
  "field_or_empty entry k = (case map_of entry k of Some v \<Rightarrow> v | None \<Rightarrow> JStr '''')"

text \<open>
  The cleaned text in the words of the specification, to compare the code with: every run
  of whitespace becomes one space, on a string whose leading and trailing whitespace has
  been trimmed.
\<close>

function spec_collapse_runs :: "string \<Rightarrow> string" where
  "spec_collapse_runs [] = []"
| "spec_collapse_runs (c # cs) =
     (if py_isspace c then CHR '' '' # spec_collapse_runs (dropWhile py_isspace cs)
      else c # spec_collapse_runs cs)"
  by pat_completeness auto
termination
  by (relation "measure length") (simp_all add: less_Suc_eq_le length_dropWhile_le)

definition spec_normalize :: "string \<Rightarrow> string" where
  "spec_normalize s = spec_collapse_runs (py_strip s)"

text \<open>The identities of the tags of a document; they are distinct, as objects are.\<close>

fun tag_ids_node :: "node \<Rightarrow> nat list" where
  "tag_ids_node (Text s) = []"
| "tag_ids_node (Tag i name contents) = i # concat (map tag_ids_node contents)"

definition tag_ids :: "node list \<Rightarrow> nat list" where
  "tag_ids soup = concat (map tag_ids_node soup)"

text \<open>
  The removal in the words of the specification, to compare the loop of the code with: the
  document without the tags that have one of the names, each such tag left out with
  everything below it.
\<close>

fun spec_remove_node :: "string list \<Rightarrow> node \<Rightarrow> node list" where
  "spec_remove_node names (Text s) = [Text s]"
| "spec_remove_node names (Tag i name contents) =
     (if name \<in> set names then [] else [Tag i name (concat (map (spec_remove_node names) contents))])"

definition spec_remove_subtrees :: "string list \<Rightarrow> node list \<Rightarrow> node list" where
  "spec_remove_subtrees names soup = concat (map (spec_remove_node names) soup)"

text \<open>The document without the tags whose identity is in a set (used in the proofs).\<close>

fun drop_ids_node :: "nat set \<Rightarrow> node \<Rightarrow> node list" where
  "drop_ids_node S (Text s) = [Text s]"
| "drop_ids_node S (Tag i name contents) =
     (if i \<in> S then [] else [Tag i name (concat (map (drop_ids_node S) contents))])"

text \<open>The identities of the tags that have none of the names (used in the proofs).\<close>

fun other_ids_node :: "string list \<Rightarrow> node \<Rightarrow> nat list" where
  "other_ids_node names (Text s) = []"
| "other_ids_node names (Tag i name contents) =
     (if name \<in> set names then [] else [i]) @ concat (map (other_ids_node names) contents)"

text \<open>Concrete objects, responses and worlds, for the examples.\<close>

definition an_assistant :: assistant where
  "an_assistant = \<lparr> bing_api_key = Some ''bing-key'', gemini_api_key = Some ''gemini-key'' \<rparr>"

definition json_response :: "int \<Rightarrow> json \<Rightarrow> response" where
  "json_response st j = \<lparr> status = st, body_text = Inr '''', body_json = Inr j \<rparr>"

definition answering :: "exn + response \<Rightarrow> world" where
  "answering r = \<lparr> http = (\<lambda>req. r), html_parser = (\<lambda>html. Inr []) \<rparr>"

definition search_body :: "(string \<times> json) list list \<Rightarrow> json" where
  "search_body entries = JDict [(''webPages'', JDict [(''value'', JList (map JDict entries))])]"

definition entry_a :: "(string \<times> json) list" where
  "entry_a = [(''name'', JStr ''A''), (''url'', JStr ''http://a'')]"

definition entry_untitled :: "(string \<times> json) list" where
  "entry_untitled = [(''url'', JStr ''http://b'')]"

text \<open>
  The text wrapped in minimal HTML, as the parser gives it: an \<^verbatim>\<open>html\<close> tag, a \<^verbatim>\<open>body\<close> tag
  and the text.
\<close>

definition minimal_html :: "nat \<Rightarrow> nat \<Rightarrow> string \<Rightarrow> node list" where
  "minimal_html i j t = [Tag i ''html'' [Tag j ''body'' [Text t]]]"

text \<open>
  Whether a word occurs in a text.
\<close>

fun starts_with :: "string \<Rightarrow> string \<Rightarrow> bool" where
  "starts_with s [] = True"
| "starts_with [] (p # ps) = False"
| "starts_with (c # cs) (p # ps) = (c = p \<and> starts_with cs ps)"

fun mentions :: "string \<Rightarrow> string \<Rightarrow> bool" where
  "mentions [] p = (p = [])"
| "mentions (c # cs) p = (starts_with (c # cs) p \<or> mentions cs p)"

text \<open>
  More concrete responses, pages and a world for the examples: three pages (the second
  answers 404), a search response with one entry and a summary.
\<close>

definition page_response :: "int \<Rightarrow> string \<Rightarrow> response" where
  "page_response st html = \<lparr> status = st, body_text = Inr html, body_json = Inl ContentTypeError \<rparr>"

definition hello_html :: string where
  "hello_html = ''<html><body>Hello World</body></html>''"

definition menu_html :: string where
  "menu_html = ''<nav>Menu</nav>Second  page''"

definition summary_body :: json where
  "summary_body =
     JDict [(''candidates'',
             JList [JDict [(''content'',
                            JDict [(''parts'', JList [JDict [(''text'', JStr ''A summary.'')]])])]])]"

definition demo_world :: world where
  "demo_world =
     \<lparr> http = (\<lambda>req.
          if req_url req = JStr ''http://a'' then Inr (page_response 200 hello_html)
          else if req_url req = JStr ''http://b'' then Inr (page_response 404 '''')
          else if req_url req = JStr ''http://c'' then Inr (page_response 200 menu_html)
          else if req_url req = JStr ''https://api.bing.microsoft.com/v7.0/search''
            then Inr (json_response 200 (search_body [entry_a]))
          else if req_verb req = POST then Inr (json_response 200 summary_body)
          else Inl ClientError),
       html_parser = (\<lambda>html.
          if html = hello_html then Inr [Tag 0 ''html'' [Tag 1 ''body'' [Text ''Hello World'']]]
          else if html = menu_html then Inr [Tag 0 ''nav'' [Text ''Menu''], Text ''Second  page'']
          else Inl ParserRejectedMarkup) \<rparr>"

definition result_for :: "string \<Rightarrow> search_result" where
  "result_for u = [(''url'', JStr u), (''title'', JStr ''A'')]"

definition sample_page :: "node list" where
  "sample_page =
     [Tag 0 ''div''
        [Tag 1 ''nav'' [Text ''X'', Tag 2 ''footer'' [Text ''Z'']], Text '' a  b ''],
      Tag 3 ''script'' [Text ''var x;''],
      Text ''Y'']"

definition unavailable :: response where
  "unavailable = \<lparr> status = 503, body_text = Inr ''Service Unavailable'',
                     body_json = Inl ContentTypeError \<rparr>"

section \<open>Properties of the string operations\<close>

lemma space_isspace: "py_isspace (CHR '' '')"
  by (simp add: py_isspace_def)

lemma py_split_Nil: "py_split [] = []"
  by (simp add: py_split.simps)

lemma dropWhile_Cons_D:
  "dropWhile P s = c # cs \<Longrightarrow> \<not> P c \<and> (\<exists>x\<in>set s. \<not> P x)"
  by (induction s) (auto split: if_splits)

lemma dropWhile_Cons_append:
  "dropWhile P s = c # cs \<Longrightarrow> dropWhile P (s @ v) = c # cs @ v"
  by (induction s) (auto split: if_splits)

lemma py_split_all_space: "dropWhile py_isspace s = [] \<Longrightarrow> py_split s = []"
  by (subst py_split.simps) (simp only: list.case)

lemma py_split_unfold:
  "dropWhile py_isspace s = c # cs \<Longrightarrow>
   py_split s = takeWhile (\<lambda>x. \<not> py_isspace x) (c # cs)
                  # py_split (dropWhile (\<lambda>x. \<not> py_isspace x) (c # cs))"
  by (subst py_split.simps) simp

lemma py_split_empty_iff: "py_split s = [] \<longleftrightarrow> (\<forall>c\<in>set s. py_isspace c)"
proof (cases "dropWhile py_isspace s")
  case Nil
  then show ?thesis
    by (simp add: py_split_all_space dropWhile_eq_Nil_conv)
next
  case (Cons c cs)
  then show ?thesis
    using dropWhile_Cons_D [OF Cons] by (auto simp: py_split_unfold)
qed

lemma py_split_dropWhile: "py_split (dropWhile py_isspace s) = py_split s"
  by (subst py_split.simps, subst (2) py_split.simps) simp

lemma py_split_append_spaces:
  "\<forall>c\<in>set v. py_isspace c \<Longrightarrow> py_split (u @ v) = py_split u"
proof (induction u rule: py_split.induct)
  case (1 s)
  show ?case
  proof (cases "dropWhile py_isspace s")
    case Nil
    then have "\<forall>c\<in>set (s @ v). py_isspace c"
      using 1(2) by (auto simp: dropWhile_eq_Nil_conv)
    then have "py_split (s @ v) = []"
      by (simp only: py_split_empty_iff)
    then show ?thesis
      using Nil by (simp add: py_split_all_space)
  next
    case (Cons c cs)
    let ?nsp = "\<lambda>x. \<not> py_isspace x"
    let ?rest = "dropWhile ?nsp (c # cs)"
    have dw: "dropWhile py_isspace (s @ v) = c # (cs @ v)"
      using dropWhile_Cons_append [OF Cons] by simp
    have ih: "py_split (?rest @ v) = py_split ?rest"
      using 1(1) [OF Cons 1(2)] .
    have tw: "takeWhile ?nsp (c # (cs @ v)) = takeWhile ?nsp (c # cs)
              \<and> py_split (dropWhile ?nsp (c # (cs @ v))) = py_split ?rest"
    proof (cases "\<forall>x\<in>set (c # cs). ?nsp x")
      case True
      have "takeWhile ?nsp v = []" "py_split (dropWhile ?nsp v) = []"
        using 1(2) by (cases v; simp add: py_split_empty_iff)+
      moreover have "takeWhile ?nsp ((c # cs) @ v) = (c # cs) @ takeWhile ?nsp v"
        using True by (intro takeWhile_append2) auto
      moreover have "dropWhile ?nsp ((c # cs) @ v) = dropWhile ?nsp v"
        using True by (intro dropWhile_append2) auto
      moreover have "takeWhile ?nsp (c # cs) = c # cs" "?rest = []"
        using True by simp_all
      ultimately show ?thesis
        by (simp add: py_split_all_space)
    next
      case False
      then obtain x where x: "x \<in> set (c # cs)" "\<not> ?nsp x"
        by blast
      have "takeWhile ?nsp ((c # cs) @ v) = takeWhile ?nsp (c # cs)"
        using x by (rule takeWhile_append1)
      moreover have "dropWhile ?nsp ((c # cs) @ v) = ?rest @ v"
        using x by (rule dropWhile_append1)
      ultimately show ?thesis
        using ih by simp
    qed
    show ?thesis
      using tw by (simp add: py_split_unfold [OF Cons] py_split_unfold [OF dw])
  qed
qed

lemma py_split_strip: "py_split (py_strip s) = py_split s"
proof -
  let ?t = "dropWhile py_isspace s"
  have "?t = rev (dropWhile py_isspace (rev ?t)) @ rev (takeWhile py_isspace (rev ?t))"
    by (metis rev_append rev_rev_ident takeWhile_dropWhile_id)
  moreover have "\<forall>c\<in>set (rev (takeWhile py_isspace (rev ?t))). py_isspace c"
    by (auto dest: set_takeWhileD)
  ultimately have "py_split ?t = py_split (rev (dropWhile py_isspace (rev ?t)))"
    using py_split_append_spaces by metis
  then show ?thesis
    by (simp add: py_strip_def py_split_dropWhile)
qed

lemma collapse_runs_word:
  "spec_collapse_runs u = takeWhile (\<lambda>x. \<not> py_isspace x) u
                       @ spec_collapse_runs (dropWhile (\<lambda>x. \<not> py_isspace x) u)"
  by (induction u) simp_all

lemma last_dropWhile:
  "dropWhile P s \<noteq> [] \<Longrightarrow> last (dropWhile P s) = last s"
  by (induction s) (auto split: if_splits)

lemma collapse_runs_split:
  "t = [] \<or> \<not> py_isspace (last t) \<Longrightarrow>
   spec_collapse_runs (dropWhile py_isspace t) = py_join '' '' (py_split t)"
proof (induction t rule: py_split.induct)
  case (1 s)
  show ?case
  proof (cases "dropWhile py_isspace s")
    case Nil
    then show ?thesis
      by (simp add: py_split_all_space del: dropWhile_eq_Nil_conv)
  next
    case outer: (Cons c cs)
    define word where "word = takeWhile (\<lambda>x. \<not> py_isspace x) (c # cs)"
    define rest where "rest = dropWhile (\<lambda>x. \<not> py_isspace x) (c # cs)"
    have split: "py_split s = word # py_split rest"
      unfolding word_def rest_def by (rule py_split_unfold [OF outer])
    have cr: "spec_collapse_runs (c # cs) = word @ spec_collapse_runs rest"
      unfolding word_def rest_def by (rule collapse_runs_word)
    show ?thesis
    proof (cases rest)
      case Nil
      then show ?thesis
        using split cr outer by (simp add: py_split_Nil del: dropWhile_eq_Nil_conv)
    next
      case (Cons d ds)
      have d: "py_isspace d"
        using dropWhile_Cons_D [of "\<lambda>x. \<not> py_isspace x" "c # cs" d ds] Cons
        unfolding rest_def by blast
      have "rest \<noteq> []"
        using Cons by simp
      then have "last rest = last (c # cs)"
        unfolding rest_def by (rule last_dropWhile)
      also have "\<dots> = last s"
        using outer last_dropWhile [of py_isspace s] by simp
      finally have lr: "last rest = last s" .
      have "s \<noteq> []"
        using outer by auto
      then have last: "\<not> py_isspace (last rest)"
        using 1(2) lr by simp
      have ih: "spec_collapse_runs (dropWhile py_isspace rest) = py_join '' '' (py_split rest)"
        using 1(1) [OF outer] last unfolding rest_def by blast
      have "last rest \<in> set rest"
        using \<open>rest \<noteq> []\<close> by (rule last_in_set)
      then have "py_split rest \<noteq> []"
        using last unfolding py_split_empty_iff by blast
      then obtain w ws where ws: "py_split rest = w # ws"
        by (cases "py_split rest") auto
      have "spec_collapse_runs rest = CHR '' '' # spec_collapse_runs (dropWhile py_isspace rest)"
        using Cons d by simp
      then have "spec_collapse_runs (c # cs) = word @ '' '' @ py_join '' '' (py_split rest)"
        using cr ih by simp
      then show ?thesis
        using split ws outer by simp
    qed
  qed
qed

lemma py_strip_ends:
  "dropWhile py_isspace (py_strip t) = py_strip t"
  "py_strip t = [] \<or> \<not> py_isspace (last (py_strip t))"
proof -
  define v where "v = dropWhile py_isspace t"
  define r where "r = dropWhile py_isspace (rev v)"
  have u: "py_strip t = rev r"
    by (simp add: py_strip_def v_def r_def)
  have v: "v = rev r @ rev (takeWhile py_isspace (rev v))"
    unfolding r_def by (metis rev_append rev_rev_ident takeWhile_dropWhile_id)
  have r: "r = [] \<or> \<not> py_isspace (hd r)"
    unfolding r_def using hd_dropWhile [of py_isspace "rev v"] by blast
  then show "py_strip t = [] \<or> \<not> py_isspace (last (py_strip t))"
    unfolding u by (cases "r = []") (simp_all add: last_rev)
  have "rev r = [] \<or> \<not> py_isspace (hd (rev r))"
  proof (cases "rev r = []")
    case False
    then have "hd (rev r) = hd v"
      using v hd_append2 [of "rev r" "rev (takeWhile py_isspace (rev v))"] by simp
    moreover have "v \<noteq> []"
      using False v by (metis append_is_Nil_conv)
    then have "\<not> py_isspace (hd v)"
      unfolding v_def using hd_dropWhile [of py_isspace t] by blast
    ultimately show ?thesis
      by simp
  qed simp
  then show "dropWhile py_isspace (py_strip t) = py_strip t"
    unfolding u by (cases "rev r") auto
qed

lemma collapse_runs_strip: "spec_collapse_runs (py_strip t) = py_join '' '' (py_split t)"
  using collapse_runs_split [OF py_strip_ends(2), of t]
  by (simp add: py_strip_ends(1) py_split_strip)

lemma py_split_words:
  "w \<in> set (py_split s) \<Longrightarrow> w \<noteq> [] \<and> (\<forall>c\<in>set w. \<not> py_isspace c)"
proof (induction s rule: py_split.induct)
  case (1 s)
  show ?case
  proof (cases "dropWhile py_isspace s")
    case Nil
    then have "py_split s = []"
      by (rule py_split_all_space)
    then show ?thesis
      using 1(2) by simp
  next
    case (Cons c cs)
    define word where "word = takeWhile (\<lambda>x. \<not> py_isspace x) (c # cs)"
    define rest where "rest = dropWhile (\<lambda>x. \<not> py_isspace x) (c # cs)"
    have split: "py_split s = word # py_split rest"
      unfolding word_def rest_def by (rule py_split_unfold [OF Cons])
    have c: "\<not> py_isspace c"
      using dropWhile_Cons_D [OF Cons] by blast
    have word: "word \<noteq> [] \<and> (\<forall>x\<in>set word. \<not> py_isspace x)"
      unfolding word_def using c by (auto dest: set_takeWhileD)
    have ih: "w \<in> set (py_split rest) \<Longrightarrow> w \<noteq> [] \<and> (\<forall>c\<in>set w. \<not> py_isspace c)"
      using 1(1) [OF Cons] unfolding rest_def by blast
    have "w = word \<or> w \<in> set (py_split rest)"
      using 1(2) split by simp
    then show ?thesis
      using word ih by blast
  qed
qed

lemma py_split_one_word:
  assumes "w \<noteq> []" "\<forall>c\<in>set w. \<not> py_isspace c" "v = [] \<or> py_isspace (hd v)"
  shows "py_split (w @ v) = w # py_split v"
proof -
  obtain c cs where w: "w = c # cs"
    using assms(1) by (cases w) auto
  have dw: "dropWhile py_isspace (w @ v) = c # (cs @ v)"
    using assms(2) w by simp
  have "takeWhile (\<lambda>x. \<not> py_isspace x) (w @ v) = w"
    using assms(2,3) by (cases v) (simp_all add: takeWhile_append2)
  moreover have "dropWhile (\<lambda>x. \<not> py_isspace x) (w @ v) = v"
    using assms(2,3) by (cases v) (simp_all add: dropWhile_append2)
  ultimately show ?thesis
    using py_split_unfold [OF dw] w by simp
qed

lemma py_split_join:
  "\<forall>w\<in>set ws. w \<noteq> [] \<and> (\<forall>c\<in>set w. \<not> py_isspace c) \<Longrightarrow>
   py_split (py_join '' '' ws) = ws"
proof (induction "'' ''" ws rule: py_join.induct)
  case 1
  then show ?case by (simp add: py_split_Nil)
next
  case (2 x)
  then show ?case
    using py_split_one_word [of x "[]"] by (simp add: py_split_Nil)
next
  case (3 x y ys)
  define tail where "tail = py_join '' '' (y # ys)"
  have "py_split (x @ (CHR '' '' # tail)) = x # py_split (CHR '' '' # tail)"
    using 3(2) by (intro py_split_one_word) (simp_all add: space_isspace)
  also have "py_split (CHR '' '' # tail) = py_split tail"
    using py_split_dropWhile [of "CHR '' '' # tail"] py_split_dropWhile [of tail]
    by (simp add: space_isspace)
  also have "py_split tail = y # ys"
    unfolding tail_def using 3 by simp
  finally show ?case
    by (simp add: tail_def)
qed

lemma normalise_idem: "py_split (py_join '' '' (py_split t)) = py_split t"
  by (rule py_split_join) (use py_split_words in blast)

section \<open>Properties of the document tree\<close>

lemma concat_map_single:
  "(\<And>x. x \<in> set xs \<Longrightarrow> f x = [x]) \<Longrightarrow> concat (map f xs) = xs"
  by (induction xs) simp_all

lemma concat_map_cong_set:
  "(\<And>x. x \<in> set xs \<Longrightarrow> f x = g x) \<Longrightarrow> concat (map f xs) = concat (map g xs)"
  by (induction xs) simp_all

lemma concat_map_concat_map:
  "concat (map f (concat (map g xs))) = concat (map (\<lambda>x. concat (map f (g x))) xs)"
  by (induction xs) simp_all

lemma drop_ids_node_empty: "drop_ids_node {} t = [t]"
proof (induction t)
  case (Text s)
  show ?case by simp
next
  case (Tag j name contents)
  have "concat (map (drop_ids_node {}) contents) = contents"
    using Tag by (rule concat_map_single)
  then show ?case by simp
qed

lemma decompose_drop_ids_node:
  "concat (map (decompose_node i) (drop_ids_node S t)) = drop_ids_node (insert i S) t"
proof (induction t)
  case (Text s)
  show ?case by simp
next
  case (Tag j name contents)
  have "concat (map (decompose_node i) (concat (map (drop_ids_node S) contents)))
        = concat (map (\<lambda>x. concat (map (decompose_node i) (drop_ids_node S x))) contents)"
    by (rule concat_map_concat_map)
  also have "\<dots> = concat (map (drop_ids_node (insert i S)) contents)"
    using Tag by (rule concat_map_cong_set)
  finally show ?case by simp
qed

lemma decompose_drop_ids:
  "decompose i (concat (map (drop_ids_node S) soup)) = concat (map (drop_ids_node (insert i S)) soup)"
  unfolding decompose_def
  by (simp add: concat_map_concat_map decompose_drop_ids_node)

lemma fold_decompose_drop_ids:
  "fold decompose is (concat (map (drop_ids_node S) soup))
   = concat (map (drop_ids_node (S \<union> set is)) soup)"
  by (induction "is" arbitrary: S) (simp_all add: decompose_drop_ids)

lemma fold_decompose:
  "fold decompose is soup = concat (map (drop_ids_node (set is)) soup)"
proof -
  have "concat (map (drop_ids_node {}) soup) = soup"
    by (rule concat_map_single) (rule drop_ids_node_empty)
  then show ?thesis
    using fold_decompose_drop_ids [of "is" "{}" soup] by simp
qed

lemma drop_ids_without_node:
  "set (find_all_node names t) \<subseteq> S \<Longrightarrow> S \<inter> set (other_ids_node names t) = {} \<Longrightarrow>
   drop_ids_node S t = spec_remove_node names t"
proof (induction t)
  case (Text s)
  show ?case by simp
next
  case (Tag j name contents)
  show ?case
  proof (cases "name \<in> set names")
    case True
    then show ?thesis using Tag.prems by simp
  next
    case False
    then have "j \<notin> S" using Tag.prems by auto
    moreover have "concat (map (drop_ids_node S) contents) = concat (map (spec_remove_node names) contents)"
    proof (rule concat_map_cong_set)
      fix x assume x: "x \<in> set contents"
      show "drop_ids_node S x = spec_remove_node names x"
        using Tag.IH [OF x] Tag.prems x False by (auto simp: disjoint_iff)
    qed
    ultimately show ?thesis using False by simp
  qed
qed

lemma find_all_node_ids: "set (find_all_node names t) \<subseteq> set (tag_ids_node t)"
  by (induction t) auto

lemma other_ids_node_ids: "set (other_ids_node names t) \<subseteq> set (tag_ids_node t)"
  by (induction t) auto

lemma set_concat_map_mono:
  "(\<And>x. set (f x) \<subseteq> set (g x)) \<Longrightarrow> set (concat (map f xs)) \<subseteq> set (concat (map g xs))"
  by (induction xs) auto

lemma disjoint_unions:
  "A1 \<inter> B1 = {} \<Longrightarrow> A2 \<inter> B2 = {} \<Longrightarrow> A1 \<subseteq> I1 \<Longrightarrow> B1 \<subseteq> I1 \<Longrightarrow>
   A2 \<subseteq> I2 \<Longrightarrow> B2 \<subseteq> I2 \<Longrightarrow> I1 \<inter> I2 = {} \<Longrightarrow> (A1 \<union> A2) \<inter> (B1 \<union> B2) = {}"
  by blast

lemma find_other_disjoint_list:
  assumes "\<And>x. x \<in> set ts \<Longrightarrow> distinct (tag_ids_node x) \<Longrightarrow>
             set (find_all_node names x) \<inter> set (other_ids_node names x) = {}"
    and "distinct (concat (map tag_ids_node ts))"
  shows "set (concat (map (find_all_node names) ts))
           \<inter> set (concat (map (other_ids_node names) ts)) = {}"
  using assms
proof (induction ts)
  case Nil
  show ?case by simp
next
  case (Cons t ts)
  have d: "distinct (tag_ids_node t)" "distinct (concat (map tag_ids_node ts))"
    "set (tag_ids_node t) \<inter> set (concat (map tag_ids_node ts)) = {}"
    using Cons.prems(2) by simp_all
  have here: "set (find_all_node names t) \<inter> set (other_ids_node names t) = {}"
    using Cons.prems(1) [of t] d(1) by simp
  have there: "set (concat (map (find_all_node names) ts))
                 \<inter> set (concat (map (other_ids_node names) ts)) = {}"
  proof (rule Cons.IH)
    fix x assume "x \<in> set ts" "distinct (tag_ids_node x)"
    then show "set (find_all_node names x) \<inter> set (other_ids_node names x) = {}"
      using Cons.prems(1) [of x] by simp
  qed (rule d(2))
  have "(set (find_all_node names t) \<union> set (concat (map (find_all_node names) ts)))
          \<inter> (set (other_ids_node names t) \<union> set (concat (map (other_ids_node names) ts))) = {}"
    using here there
  proof (rule disjoint_unions)
    show "set (find_all_node names t) \<subseteq> set (tag_ids_node t)"
      by (rule find_all_node_ids)
    show "set (other_ids_node names t) \<subseteq> set (tag_ids_node t)"
      by (rule other_ids_node_ids)
    show "set (concat (map (find_all_node names) ts)) \<subseteq> set (concat (map tag_ids_node ts))"
      by (rule set_concat_map_mono) (rule find_all_node_ids)
    show "set (concat (map (other_ids_node names) ts)) \<subseteq> set (concat (map tag_ids_node ts))"
      by (rule set_concat_map_mono) (rule other_ids_node_ids)
    show "set (tag_ids_node t) \<inter> set (concat (map tag_ids_node ts)) = {}"
      by (rule d(3))
  qed
  then show ?case
    by (simp only: list.map concat.simps set_append)
qed

lemma find_other_disjoint_node:
  "distinct (tag_ids_node t) \<Longrightarrow>
   set (find_all_node names t) \<inter> set (other_ids_node names t) = {}"
proof (induction t)
  case (Text s)
  show ?case by simp
next
  case (Tag j name contents)
  have d: "j \<notin> set (concat (map tag_ids_node contents))"
    "distinct (concat (map tag_ids_node contents))"
    using Tag.prems by simp_all
  have below: "set (concat (map (find_all_node names) contents))
                 \<inter> set (concat (map (other_ids_node names) contents)) = {}"
    using Tag.IH d(2) by (rule find_other_disjoint_list)
  have sub: "set (concat (map (find_all_node names) contents)) \<subseteq> set (concat (map tag_ids_node contents))"
    "set (concat (map (other_ids_node names) contents)) \<subseteq> set (concat (map tag_ids_node contents))"
    by (rule set_concat_map_mono, rule find_all_node_ids, rule set_concat_map_mono, rule other_ids_node_ids)
  have "j \<notin> set (concat (map (find_all_node names) contents))"
    "j \<notin> set (concat (map (other_ids_node names) contents))"
    using sub d(1) by blast+
  then show ?case
    using below by (cases "name \<in> set names") simp_all
qed

lemma find_other_disjoint:
  "distinct (tag_ids soup) \<Longrightarrow>
   set (find_all names soup) \<inter> set (concat (map (other_ids_node names) soup)) = {}"
  unfolding tag_ids_def find_all_def
  by (rule find_other_disjoint_list) (simp_all add: find_other_disjoint_node)

lemma drop_ids_without:
  assumes "set (find_all names soup) \<subseteq> S"
    and "S \<inter> set (concat (map (other_ids_node names) soup)) = {}"
  shows "concat (map (drop_ids_node S) soup) = spec_remove_subtrees names soup"
  unfolding spec_remove_subtrees_def
proof (rule concat_map_cong_set)
  fix x assume x: "x \<in> set soup"
  have "set (find_all_node names x) \<subseteq> S"
    using assms(1) x unfolding find_all_def by auto
  moreover have "S \<inter> set (other_ids_node names x) = {}"
    using assms(2) x by auto
  ultimately show "drop_ids_node S x = spec_remove_node names x"
    by (rule drop_ids_without_node)
qed

lemma decompose_found:
  assumes "distinct (tag_ids soup)"
  shows "fold decompose (find_all names soup) soup = spec_remove_subtrees names soup"
  unfolding fold_decompose
proof (rule drop_ids_without)
  show "set (find_all names soup) \<subseteq> set (find_all names soup)"
    by simp
  show "set (find_all names soup) \<inter> set (concat (map (other_ids_node names) soup)) = {}"
    using assms by (rule find_other_disjoint)
qed

lemma find_all_without_node:
  "concat (map (find_all_node names) (spec_remove_node names t)) = []"
proof (induction t)
  case (Text s)
  show ?case by simp
next
  case (Tag j name contents)
  have "concat (map (find_all_node names) (concat (map (spec_remove_node names) contents)))
        = concat (map (\<lambda>x. concat (map (find_all_node names) (spec_remove_node names x))) contents)"
    by (rule concat_map_concat_map)
  also have "\<dots> = concat (map (\<lambda>x. []) contents)"
    using Tag by (rule concat_map_cong_set)
  finally show ?case
    by simp
qed

lemma find_all_without: "find_all names (spec_remove_subtrees names soup) = []"
  unfolding find_all_def spec_remove_subtrees_def
  by (simp add: concat_map_concat_map find_all_without_node)

section \<open>Properties of the Search Client\<close>

lemma search_results_of_dicts:
  "search_results_of (map JDict ds) =
     Inr (map (\<lambda>d. [(''url'', field_or_empty d ''url''),
                    (''title'', field_or_empty d ''name'')]) ds)"
  by (induction ds) (simp_all add: field_or_empty_def)

lemma search_results_of_length:
  "search_results_of entries = Inr results \<Longrightarrow> length results = length entries"
  by (induction entries arbitrary: results) (auto split: sum.splits)

lemma search_results_of_length_le:
  "search_results_of entries = Inr results \<Longrightarrow> length entries \<le> n \<Longrightarrow> length results \<le> n"
  using search_results_of_length by fastforce

text \<open>
  C10. With status 200 and a JSON object as body, \<^verbatim>\<open>search_bing\<close> returns the empty list
  when the object has no key \<^verbatim>\<open>webPages\<close>, and when the object under \<^verbatim>\<open>webPages\<close> has no
  key \<^verbatim>\<open>value\<close>: each \<^verbatim>\<open>get\<close> falls back to its empty default.
\<close>

theorem search_bing_missing_keys:
  assumes "http w (search_request self query) = Inr resp"
    and "status resp = 200"
    and "body_json resp = Inr (JDict d)"
    and "map_of d ''webPages'' = None
         \<or> (\<exists>p. map_of d ''webPages'' = Some (JDict p) \<and> map_of p ''value'' = None)"
  shows "search_bing self w query = Inr []"
  using assms by (auto simp: search_bing_def)

theorem search_bing_missing_keys_witness:
  "search_bing an_assistant (answering (Inr (json_response 200 (JDict [])))) ''test'' = Inr []
   \<and> search_bing an_assistant
        (answering (Inr (json_response 200 (JDict [(''webPages'', JDict [(''someKey'', JInt 0)])]))))
        ''test'' = Inr []"
proof
  let ?r = "json_response 200 (JDict [])"
  show "search_bing an_assistant (answering (Inr ?r)) ''test'' = Inr []"
    by (rule search_bing_missing_keys [where resp = ?r and d = "[]"])
       (simp_all add: answering_def json_response_def)
next
  let ?r = "json_response 200 (JDict [(''webPages'', JDict [(''someKey'', JInt 0)])])"
  show "search_bing an_assistant (answering (Inr ?r)) ''test'' = Inr []"
    by (rule search_bing_missing_keys
          [where resp = ?r and d = "[(''webPages'', JDict [(''someKey'', JInt 0)])]"])
       (simp_all add: answering_def json_response_def)
qed

text \<open>
  C3. With status 200 and a body whose \<^verbatim>\<open>webPages.value\<close> is a list of N objects,
  \<^verbatim>\<open>search_bing\<close> returns N results, the i-th made from the i-th entry, with the empty
  string where the entry has no \<^verbatim>\<open>url\<close> or no \<^verbatim>\<open>name\<close>. This holds for every N, so for
  N up to 10.
\<close>

theorem search_bing_well_formed:
  assumes "http w (search_request self query) = Inr resp"
    and "status resp = 200"
    and "body_json resp = Inr (JDict d)"
    and "map_of d ''webPages'' = Some (JDict p)"
    and "map_of p ''value'' = Some (JList (map JDict entries))"
  shows "search_bing self w query =
           Inr (map (\<lambda>e. [(''url'', field_or_empty e ''url''),
                          (''title'', field_or_empty e ''name'')]) entries)"
  using assms by (simp add: search_bing_def search_results_of_dicts)

theorem search_bing_well_formed_witness:
  "search_bing an_assistant
     (answering (Inr (json_response 200 (search_body [entry_a, entry_untitled])))) ''test''
   = Inr [[(''url'', JStr ''http://a''), (''title'', JStr ''A'')],
          [(''url'', JStr ''http://b''), (''title'', JStr '''')]]"
proof -
  let ?r = "json_response 200 (search_body [entry_a, entry_untitled])"
  have "search_bing an_assistant (answering (Inr ?r)) ''test''
        = Inr (map (\<lambda>e. [(''url'', field_or_empty e ''url''),
                         (''title'', field_or_empty e ''name'')]) [entry_a, entry_untitled])"
    by (rule search_bing_well_formed
          [where resp = ?r
             and d = "[(''webPages'', JDict [(''value'', JList (map JDict [entry_a, entry_untitled]))])]"
             and p = "[(''value'', JList (map JDict [entry_a, entry_untitled]))]"])
       (simp_all add: answering_def json_response_def search_body_def)
  then show ?thesis
    by (simp add: field_or_empty_def entry_a_def entry_untitled_def)
qed

text \<open>
  C2, as the code has it. The request asks the provider for 10 results, and the method
  returns one result for each entry of the response, none when the status is not 200. So
  the result has at most 10 items when the response lists at most 10 entries; a longer
  response is not cut.
\<close>

theorem search_bing_length:
  assumes "search_bing self w query = Inr results"
  shows "map_of (req_params (search_request self query)) ''count'' = Some (JInt 10)
         \<and> (\<exists>resp. http w (search_request self query) = Inr resp
              \<and> (if status resp = 200
                  then \<exists>data pages v entries.
                         body_json resp = Inr data
                         \<and> py_get data ''webPages'' (JDict []) = Inr pages
                         \<and> py_get pages ''value'' (JList []) = Inr v
                         \<and> py_iter v = Inr entries
                         \<and> length results = length entries
                         \<and> (length entries \<le> 10 \<longrightarrow> length results \<le> 10)
                  else results = []))"
proof
  show "map_of (req_params (search_request self query)) ''count'' = Some (JInt 10)"
    by (simp add: search_request_def)
next
  obtain resp where resp: "http w (search_request self query) = Inr resp"
    using assms by (auto simp: search_bing_def split: sum.splits)
  show "\<exists>resp. http w (search_request self query) = Inr resp
          \<and> (if status resp = 200
              then \<exists>data pages v entries.
                     body_json resp = Inr data
                     \<and> py_get data ''webPages'' (JDict []) = Inr pages
                     \<and> py_get pages ''value'' (JList []) = Inr v
                     \<and> py_iter v = Inr entries
                     \<and> length results = length entries
                     \<and> (length entries \<le> 10 \<longrightarrow> length results \<le> 10)
              else results = [])"
  proof (intro exI conjI)
    show "http w (search_request self query) = Inr resp"
      by (rule resp)
    show "if status resp = 200
          then \<exists>data pages v entries.
                 body_json resp = Inr data
                 \<and> py_get data ''webPages'' (JDict []) = Inr pages
                 \<and> py_get pages ''value'' (JList []) = Inr v
                 \<and> py_iter v = Inr entries
                 \<and> length results = length entries
                 \<and> (length entries \<le> 10 \<longrightarrow> length results \<le> 10)
          else results = []"
      using assms resp
      by (auto simp: search_bing_def split: sum.splits
            dest: search_results_of_length intro: search_results_of_length_le)
  qed
qed

theorem search_bing_length_witness:
  "search_bing an_assistant
     (answering (Inr (json_response 200 (search_body [entry_a, entry_untitled])))) ''test''
   = Inr [[(''url'', JStr ''http://a''), (''title'', JStr ''A'')],
          [(''url'', JStr ''http://b''), (''title'', JStr '''')]]
   \<and> map_of (req_params (search_request an_assistant ''test'')) ''count'' = Some (JInt 10)
   \<and> length [[(''url'', JStr ''http://a''), (''title'', JStr ''A'')],
              [(''url'', JStr ''http://b''), (''title'', JStr '''')]] \<le> (10 :: nat)"
proof -
  let ?w = "answering (Inr (json_response 200 (search_body [entry_a, entry_untitled])))"
  let ?rs = "[[(''url'', JStr ''http://a''), (''title'', JStr ''A'')],
              [(''url'', JStr ''http://b''), (''title'', JStr '''')]]"
  have h: "search_bing an_assistant ?w ''test'' = Inr ?rs"
    by (simp add: search_bing_def answering_def json_response_def search_body_def
          entry_a_def entry_untitled_def)
  show ?thesis
    using h search_bing_length [OF h] by simp
qed

text \<open>
  C2, as the claim states it, fails: a response with status 200 that lists 11 entries gives
  11 results.
\<close>

theorem search_bing_eleven:
  "map_sum id length
     (search_bing an_assistant
        (answering (Inr (json_response 200 (search_body (replicate 11 entry_a))))) ''test'')
   = Inr 11"
  by (simp add: search_bing_def answering_def json_response_def search_body_def
        search_results_of_dicts del: map_replicate)

section \<open>Properties of the Content Extractor\<close>

lemma get_text_single: "get_text sep True [Text t] = py_strip t"
  by (simp add: get_text_def all_strings_def py_bool_def)

lemma extract_text_minimal: "extract_text (minimal_html i j t) = py_join '' '' (py_split t)"
proof -
  have "find_all removed_names (minimal_html i j t) = []"
    by (simp add: minimal_html_def find_all_def removed_names_def)
  moreover have "get_text '' '' True (minimal_html i j t) = py_strip t"
    by (simp add: minimal_html_def get_text_def all_strings_def py_bool_def)
  ultimately show ?thesis
    by (simp add: extract_text_def py_split_strip)
qed

lemma normalized_join: "spec_normalize t = py_join '' '' (py_split t)"
  by (simp add: spec_normalize_def collapse_runs_strip)

text \<open>
  C7. For a text wrapped in minimal HTML the extractor returns the text with its leading
  and trailing whitespace trimmed and every run of whitespace collapsed to one space. On
  a text that is already of that form it changes nothing: extracting from the wrapped
  result gives the result again.
\<close>

theorem extract_text_plain:
  "extract_text (minimal_html i j t) = spec_normalize t
   \<and> extract_text (minimal_html i j (spec_normalize t)) = spec_normalize t
   \<and> extract_text (minimal_html i j (extract_text (minimal_html i j t)))
       = extract_text (minimal_html i j t)"
  by (simp add: extract_text_minimal normalized_join normalise_idem)

lemma fold_decompose_texts:
  "\<forall>n\<in>set soup. \<exists>s. n = Text s \<Longrightarrow> fold decompose is soup = soup"
proof (induction "is")
  case Nil
  show ?case by simp
next
  case (Cons i "is")
  have "decompose i soup = soup"
    unfolding decompose_def using Cons.prems
    by (intro concat_map_single) auto
  then show ?case
    using Cons by simp
qed

lemma extract_text_nav: "extract_text [Tag i ''nav'' contents, Text y] = spec_normalize y"
proof -
  have "find_all removed_names [Tag i ''nav'' contents, Text y]
        = i # concat (map (find_all_node removed_names) contents)"
    by (simp add: find_all_def removed_names_def)
  moreover have "decompose i [Tag i ''nav'' contents, Text y] = [Text y]"
    by (simp add: decompose_def)
  moreover have "fold decompose (concat (map (find_all_node removed_names) contents)) [Text y]
                 = [Text y]"
    by (rule fold_decompose_texts) simp
  ultimately have "fold decompose (find_all removed_names [Tag i ''nav'' contents, Text y])
                     [Tag i ''nav'' contents, Text y] = [Text y]"
    by simp
  then show ?thesis
    by (simp add: extract_text_def get_text_single py_split_strip normalized_join)
qed

text \<open>
  C6. The loop over the found tags leaves the document without any \<^verbatim>\<open>script\<close>,
  \<^verbatim>\<open>style\<close>, \<^verbatim>\<open>nav\<close>, \<^verbatim>\<open>header\<close> or \<^verbatim>\<open>footer\<close> tag, each removed with everything
  below it, and the text is taken from what remains. For \<^verbatim>\<open><nav>X</nav>Y\<close> the result is
  the text Y, cleaned; X does not contribute.
\<close>

theorem extract_text_removes_subtrees:
  assumes "distinct (tag_ids soup)"
  shows "fold decompose (find_all removed_names soup) soup = spec_remove_subtrees removed_names soup
         \<and> find_all removed_names (spec_remove_subtrees removed_names soup) = []
         \<and> extract_text soup
             = py_join '' '' (py_split (get_text '' '' True (spec_remove_subtrees removed_names soup)))
         \<and> extract_text [Tag i ''nav'' [Text x], Text y] = spec_normalize y"
proof (intro conjI)
  show found: "fold decompose (find_all removed_names soup) soup = spec_remove_subtrees removed_names soup"
    using assms by (rule decompose_found)
  show "find_all removed_names (spec_remove_subtrees removed_names soup) = []"
    by (rule find_all_without)
  show "extract_text soup
          = py_join '' '' (py_split (get_text '' '' True (spec_remove_subtrees removed_names soup)))"
    by (simp add: extract_text_def found)
  show "extract_text [Tag i ''nav'' [Text x], Text y] = spec_normalize y"
    by (rule extract_text_nav)
qed

theorem extract_text_removes_subtrees_witness:
  "distinct (tag_ids sample_page)
   \<and> fold decompose (find_all removed_names sample_page) sample_page
       = [Tag 0 ''div'' [Text '' a  b ''], Text ''Y'']
   \<and> extract_text sample_page = ''a b Y''
   \<and> extract_text [Tag 0 ''nav'' [Text ''X''], Text ''Y''] = ''Y''"
proof -
  have d: "distinct (tag_ids sample_page)"
    by (simp add: sample_page_def tag_ids_def)
  have w: "spec_remove_subtrees removed_names sample_page = [Tag 0 ''div'' [Text '' a  b ''], Text ''Y'']"
    by (simp add: sample_page_def spec_remove_subtrees_def removed_names_def)
  have t: "py_join '' '' (py_split (get_text '' '' True [Tag 0 ''div'' [Text '' a  b ''], Text ''Y'']))
           = ''a b Y''"
    by (simp add: get_text_def all_strings_def py_strip_def py_bool_def py_isspace_def py_split.simps)
  have n: "spec_normalize ''Y'' = ''Y''"
    by (simp add: normalized_join py_isspace_def py_split.simps)
  show ?thesis
    using d extract_text_removes_subtrees [OF d, of 0 "''X''" "''Y''"] w t n by simp
qed

section \<open>Properties of the Page Fetcher\<close>

lemmas example_defs =
  demo_world_def page_response_def hello_html_def menu_html_def result_for_def
  fetch_webpage_content_def fetch_webpage_content_try_def page_request_def
  extract_text_def find_all_def removed_names_def decompose_def get_text_def
  all_strings_def py_strip_def py_bool_def py_isspace_def py_split.simps

lemma demo_fetch_a: "fetch_webpage_content demo_world (JStr ''http://a'') = Inr ''Hello World''"
  by (simp add: example_defs)

lemma demo_fetch_b: "fetch_webpage_content demo_world (JStr ''http://b'') = Inr ''''"
  by (simp add: example_defs)

lemma demo_fetch_c: "fetch_webpage_content demo_world (JStr ''http://c'') = Inr ''Second page''"
  by (simp add: example_defs)

lemma demo_fetch_d: "fetch_webpage_content demo_world (JStr ''http://d'') = Inr ''''"
  by (simp add: example_defs)

text \<open>
  C5. \<^verbatim>\<open>fetch_webpage_content\<close> always returns a string. It returns the empty string
  when the request raises, when the status is not 200, when reading the body raises and
  when the parser raises.
\<close>

theorem fetch_webpage_content_never_raises:
  "(\<exists>text. fetch_webpage_content w url = Inr text)
   \<and> (http w (page_request url) = Inl e \<longrightarrow> fetch_webpage_content w url = Inr '''')
   \<and> (http w (page_request url) = Inr resp \<and> status resp \<noteq> 200 \<longrightarrow>
        fetch_webpage_content w url = Inr '''')
   \<and> (http w (page_request url) = Inr resp \<and> status resp = 200 \<and> body_text resp = Inl e \<longrightarrow>
        fetch_webpage_content w url = Inr '''')
   \<and> (http w (page_request url) = Inr resp \<and> status resp = 200 \<and> body_text resp = Inr html
        \<and> html_parser w html = Inl e \<longrightarrow>
        fetch_webpage_content w url = Inr '''')"
  by (auto simp: fetch_webpage_content_def fetch_webpage_content_try_def split: sum.splits)

theorem fetch_webpage_content_never_raises_witness:
  "fetch_webpage_content (answering (Inl TimeoutError)) (JStr ''http://a'') = Inr ''''
   \<and> fetch_webpage_content demo_world (JStr ''http://b'') = Inr ''''
   \<and> fetch_webpage_content
        (answering (Inr \<lparr> status = 200, body_text = Inl UnicodeDecodeError,
                          body_json = Inl ContentTypeError \<rparr>))
        (JStr ''http://a'') = Inr ''''
   \<and> fetch_webpage_content
        (demo_world \<lparr> html_parser := (\<lambda>html. Inl ParserRejectedMarkup) \<rparr>)
        (JStr ''http://a'') = Inr ''''"
proof (intro conjI)
  show "fetch_webpage_content (answering (Inl TimeoutError)) (JStr ''http://a'') = Inr ''''"
    using fetch_webpage_content_never_raises
            [of "answering (Inl TimeoutError)" "JStr ''http://a''" TimeoutError]
    by (simp add: answering_def)
  show "fetch_webpage_content demo_world (JStr ''http://b'') = Inr ''''"
    using fetch_webpage_content_never_raises
            [of demo_world "JStr ''http://b''" _ "page_response 404 ''''"]
    by (simp add: demo_world_def page_request_def page_response_def)
  let ?r = "\<lparr> status = 200, body_text = Inl UnicodeDecodeError, body_json = Inl ContentTypeError \<rparr>"
  show "fetch_webpage_content (answering (Inr ?r)) (JStr ''http://a'') = Inr ''''"
    using fetch_webpage_content_never_raises
            [of "answering (Inr ?r)" "JStr ''http://a''" UnicodeDecodeError ?r]
    by (simp add: answering_def)
  let ?w = "demo_world \<lparr> html_parser := (\<lambda>html. Inl ParserRejectedMarkup) \<rparr>"
  show "fetch_webpage_content ?w (JStr ''http://a'') = Inr ''''"
    using fetch_webpage_content_never_raises
            [of ?w "JStr ''http://a''" ParserRejectedMarkup "page_response 200 hello_html" hello_html]
    by (simp add: demo_world_def page_request_def page_response_def)
qed

section \<open>Properties of the Aggregator\<close>

lemma those_map_Some: "those (map Some vs) = Some vs"
  by (induction vs) simp_all

lemma gather_run_all:
  assumes "length slots = length vs"
    and "\<forall>i<length vs. slots ! i = Some (vs ! i) \<or> (slots ! i = None \<and> i \<in> set order)"
  shows "gather_run order (map Inr vs) slots = Some (Inr vs)"
  using assms
proof (induction order arbitrary: slots)
  case Nil
  have "slots = map Some vs"
    using Nil by (intro nth_equalityI) simp_all
  then show ?case
    by (simp add: those_map_Some)
next
  case (Cons i order)
  show ?case
  proof (cases "i < length vs")
    case True
    let ?slots = "slots[i := Some (vs ! i)]"
    have "gather_run order (map Inr vs) ?slots = Some (Inr vs)"
    proof (rule Cons.IH)
      show "length ?slots = length vs"
        using Cons.prems(1) by simp
      show "\<forall>j<length vs. ?slots ! j = Some (vs ! j) \<or> (?slots ! j = None \<and> j \<in> set order)"
      proof (intro allI impI)
        fix j assume j: "j < length vs"
        show "?slots ! j = Some (vs ! j) \<or> (?slots ! j = None \<and> j \<in> set order)"
        proof (cases "j = i")
          case True
          then show ?thesis using j Cons.prems(1) by simp
        next
          case False
          then show ?thesis using j Cons.prems by auto
        qed
      qed
    qed
    then show ?thesis
      using True by simp
  next
    case False
    have "gather_run order (map Inr vs) slots = Some (Inr vs)"
    proof (rule Cons.IH)
      show "length slots = length vs"
        by (rule Cons.prems(1))
      show "\<forall>j<length vs. slots ! j = Some (vs ! j) \<or> (slots ! j = None \<and> j \<in> set order)"
        using Cons.prems(2) False by auto
    qed
    then show ?thesis
      using False by simp
  qed
qed

lemma gather_all:
  assumes "{..<length vs} \<subseteq> set order"
  shows "gather order (map Inr vs) = Some (Inr vs)"
  unfolding gather_def
  by (rule gather_run_all) (use assms in auto)

lemma task_urls_Some:
  "map (\<lambda>r. map_of r ''url'') rs = map Some urls \<Longrightarrow> task_urls rs = Inr urls"
  by (induction rs arbitrary: urls) auto

lemma scraping_joins:
  assumes "map (\<lambda>r. map_of r ''url'') search_results = map Some urls"
    and "map (fetch_webpage_content w) urls = map Inr texts"
    and "{..<length search_results} \<subseteq> set order"
  shows "parallel_webpage_scraping w order search_results
           = Some (Inr (py_join '' '' (filter (\<lambda>t. t \<noteq> []) texts)))"
proof -
  have len: "length texts = length search_results"
    using assms(1,2) by (metis length_map)
  have urls: "task_urls search_results = Inr urls"
    using assms(1) by (rule task_urls_Some)
  have "gather order (map Inr texts) = Some (Inr texts)"
    using assms(3) len by (intro gather_all) simp
  then show ?thesis
    using urls assms(2) by (simp add: parallel_webpage_scraping_def py_bool_def [abs_def])
qed

text \<open>
  C4. When every result has a URL and every fetch completes, in whatever order, the
  Aggregator returns the non-empty page texts joined by single spaces, in the order of
  the results; it returns the empty string when every page text is empty.
\<close>

theorem parallel_webpage_scraping_joins:
  assumes "map (\<lambda>r. map_of r ''url'') search_results = map Some urls"
    and "map (fetch_webpage_content w) urls = map Inr texts"
    and "{..<length search_results} \<subseteq> set order"
  shows "parallel_webpage_scraping w order search_results
           = Some (Inr (py_join '' '' (filter (\<lambda>t. t \<noteq> []) texts)))
         \<and> ((\<forall>t\<in>set texts. t = []) \<longrightarrow>
              parallel_webpage_scraping w order search_results = Some (Inr []))"
proof -
  have "(\<forall>t\<in>set texts. t = []) \<Longrightarrow> filter (\<lambda>t. t \<noteq> []) texts = []"
    by (induction texts) auto
  then show ?thesis
    using scraping_joins [OF assms] by simp
qed

theorem parallel_webpage_scraping_joins_witness:
  "parallel_webpage_scraping demo_world [2, 1, 0]
     [result_for ''http://a'', result_for ''http://b'', result_for ''http://c'']
   = Some (Inr ''Hello World Second page'')
   \<and> parallel_webpage_scraping demo_world [1, 0] [result_for ''http://b'', result_for ''http://d'']
       = Some (Inr '''')"
proof
  let ?rs = "[result_for ''http://a'', result_for ''http://b'', result_for ''http://c'']"
  let ?urls = "[JStr ''http://a'', JStr ''http://b'', JStr ''http://c'']"
  let ?texts = "[''Hello World'', '''', ''Second page'']"
  have "map (\<lambda>r. map_of r ''url'') ?rs = map Some ?urls"
    by (simp add: result_for_def)
  moreover have "map (fetch_webpage_content demo_world) ?urls = map Inr ?texts"
    by (simp add: demo_fetch_a demo_fetch_b demo_fetch_c)
  moreover have "{..<length ?rs} \<subseteq> set [2, 1, 0]"
    by (auto simp: lessThan_def less_Suc_eq numeral_3_eq_3)
  ultimately have "parallel_webpage_scraping demo_world [2, 1, 0] ?rs
                   = Some (Inr (py_join '' '' (filter (\<lambda>t. t \<noteq> []) ?texts)))"
    using parallel_webpage_scraping_joins [of ?rs ?urls demo_world ?texts "[2, 1, 0]"] by blast
  then show "parallel_webpage_scraping demo_world [2, 1, 0] ?rs = Some (Inr ''Hello World Second page'')"
    by simp
next
  let ?rs = "[result_for ''http://b'', result_for ''http://d'']"
  let ?urls = "[JStr ''http://b'', JStr ''http://d'']"
  let ?texts = "['''', '''']"
  have "map (\<lambda>r. map_of r ''url'') ?rs = map Some ?urls"
    by (simp add: result_for_def)
  moreover have "map (fetch_webpage_content demo_world) ?urls = map Inr ?texts"
    by (simp add: demo_fetch_b demo_fetch_d)
  moreover have "{..<length ?rs} \<subseteq> set [1, 0]"
    by (auto simp: lessThan_def less_Suc_eq numeral_2_eq_2)
  moreover have "\<forall>t\<in>set ?texts. t = []"
    by simp
  ultimately show "parallel_webpage_scraping demo_world [1, 0] ?rs = Some (Inr '''')"
    using parallel_webpage_scraping_joins [of ?rs ?urls demo_world ?texts "[1, 0]"] by blast
qed

section \<open>Properties of the Summarizer\<close>

text \<open>
  C8. The payload of the request holds the instruction followed by the text. The
  instruction asks for exactly 300 words and for key numbers and statistics. It does not
  ask for bullet points or tables, which the docstring of \<^verbatim>\<open>research_and_summarize\<close>
  announces.
\<close>

theorem summarize_request_instruction:
  "req_json (summarize_request self ''Revenue grew 12% in 2023.'')
     = Some (JDict [(''contents'',
               JList [JDict [(''parts'',
                 JList [JDict [(''text'',
                   JStr (instruction @ ''Revenue grew 12% in 2023.''))]])]])])
   \<and> mentions instruction ''exactly 300 words''
   \<and> mentions instruction ''key numbers, statistics''
   \<and> \<not> mentions (prompt ''Revenue grew 12% in 2023.'') ''bullet''
   \<and> \<not> mentions (prompt ''Revenue grew 12% in 2023.'') ''Bullet''
   \<and> \<not> mentions (prompt ''Revenue grew 12% in 2023.'') ''table''
   \<and> \<not> mentions (prompt ''Revenue grew 12% in 2023.'') ''Table''"
  by (simp add: summarize_request_def payload_def prompt_def instruction_def)

section \<open>Properties of the Orchestrator\<close>

lemma demo_search: "search_bing an_assistant demo_world ''test'' = Inr [result_for ''http://a'']"
  by (simp add: search_bing_def search_request_def demo_world_def json_response_def
        search_body_def entry_a_def result_for_def)

lemma demo_summarize:
  "summarize_with_gemini an_assistant demo_world corpus = Inr (JStr ''A summary.'')"
  by (simp add: summarize_with_gemini_def summarize_request_def demo_world_def
        json_response_def summary_body_def)

lemma hello_normalized: "py_join '' '' (py_split ''Hello World'') = ''Hello World''"
  by (simp add: py_split.simps py_isspace_def)

text \<open>
  C9. When the search and the scraping return, the Orchestrator returns what the
  Summarizer returns for the scraped text: each stage is called once, on the result of the
  stage before. In the scenario of the specification (one result for \<^verbatim>\<open>http://a\<close>, the
  page \<^verbatim>\<open><html><body>Hello World</body></html>\<close>, a summarizer that returns its input)
  the result is \<^verbatim>\<open>Hello World\<close>.
\<close>

theorem research_and_summarize_composes:
  "(search_bing self w query = Inr results
      \<and> parallel_webpage_scraping w order results = Some (Inr corpus) \<longrightarrow>
    research_and_summarize self w order query = Some (summarize_with_gemini self w corpus))
   \<and> (search ''test'' = Inr [[(''url'', JStr ''http://a''), (''title'', JStr ''A'')]]
        \<and> http w (page_request (JStr ''http://a'')) = Inr resp
        \<and> status resp = 200
        \<and> body_text resp = Inr ''<html><body>Hello World</body></html>''
        \<and> html_parser w ''<html><body>Hello World</body></html>''
            = Inr (minimal_html i j ''Hello World'')
        \<and> 0 \<in> set order \<longrightarrow>
       research_and_summarize_body search (parallel_webpage_scraping w order)
         (\<lambda>corpus. Inr (JStr corpus)) ''test'' = Some (Inr (JStr ''Hello World'')))"
proof (intro conjI impI)
  assume "search_bing self w query = Inr results
          \<and> parallel_webpage_scraping w order results = Some (Inr corpus)"
  then show "research_and_summarize self w order query
             = Some (summarize_with_gemini self w corpus)"
    by (simp add: research_and_summarize_def research_and_summarize_body_def)
next
  let ?html = "''<html><body>Hello World</body></html>''"
  let ?rs = "[[(''url'', JStr ''http://a''), (''title'', JStr ''A'')]]"
  assume a: "search ''test'' = Inr ?rs
        \<and> http w (page_request (JStr ''http://a'')) = Inr resp
        \<and> status resp = 200
        \<and> body_text resp = Inr ?html
        \<and> html_parser w ?html = Inr (minimal_html i j ''Hello World'')
        \<and> 0 \<in> set order"
  then have "fetch_webpage_content w (JStr ''http://a'') = Inr ''Hello World''"
    by (simp add: fetch_webpage_content_def fetch_webpage_content_try_def
          extract_text_minimal hello_normalized)
  then have f: "map (fetch_webpage_content w) [JStr ''http://a''] = map Inr [''Hello World'']"
    by simp
  have "map (\<lambda>r. map_of r ''url'') ?rs = map Some [JStr ''http://a'']"
    by simp
  moreover note f
  moreover have "{..<length ?rs} \<subseteq> set order"
    using a by auto
  ultimately have "parallel_webpage_scraping w order ?rs
                   = Some (Inr (py_join '' '' (filter (\<lambda>t. t \<noteq> []) [''Hello World''])))"
    by (rule scraping_joins)
  then show "research_and_summarize_body search (parallel_webpage_scraping w order)
               (\<lambda>corpus. Inr (JStr corpus)) ''test'' = Some (Inr (JStr ''Hello World''))"
    using a by (simp add: research_and_summarize_body_def)
qed

theorem research_and_summarize_composes_witness:
  "research_and_summarize an_assistant demo_world [0] ''test'' = Some (Inr (JStr ''A summary.''))
   \<and> research_and_summarize_body (search_bing an_assistant demo_world)
        (parallel_webpage_scraping demo_world [0]) (\<lambda>corpus. Inr (JStr corpus)) ''test''
       = Some (Inr (JStr ''Hello World''))"
proof -
  let ?rs = "[result_for ''http://a'']"
  have s: "search_bing an_assistant demo_world ''test'' = Inr ?rs"
    by (rule demo_search)
  have "map (\<lambda>r. map_of r ''url'') ?rs = map Some [JStr ''http://a'']"
    by (simp add: result_for_def)
  moreover have "map (fetch_webpage_content demo_world) [JStr ''http://a''] = map Inr [''Hello World'']"
    by (simp add: demo_fetch_a)
  moreover have "{..<length ?rs} \<subseteq> set [0]"
    by auto
  ultimately have "parallel_webpage_scraping demo_world [0] ?rs
                   = Some (Inr (py_join '' '' (filter (\<lambda>t. t \<noteq> []) [''Hello World''])))"
    by (rule scraping_joins)
  then have p: "parallel_webpage_scraping demo_world [0] ?rs = Some (Inr ''Hello World'')"
    by simp
  have h: "http demo_world (page_request (JStr ''http://a'')) = Inr (page_response 200 hello_html)"
    "status (page_response 200 hello_html) = 200"
    "body_text (page_response 200 hello_html) = Inr ''<html><body>Hello World</body></html>''"
    "html_parser demo_world ''<html><body>Hello World</body></html>''
       = Inr (minimal_html 0 1 ''Hello World'')"
    by (simp_all add: demo_world_def page_request_def page_response_def hello_html_def
          minimal_html_def)
  have s': "search_bing an_assistant demo_world ''test''
            = Inr [[(''url'', JStr ''http://a''), (''title'', JStr ''A'')]]"
    using s by (simp add: result_for_def)
  show ?thesis
    using research_and_summarize_composes
            [of an_assistant demo_world "''test''" ?rs "[0]" "''Hello World''"
                "search_bing an_assistant demo_world" "page_response 200 hello_html" 0 1]
          s s' p h
    by (simp add: demo_summarize)
qed

section \<open>Failures\<close>

lemma gather_nothing: "gather order ([] :: (exn + 'a) list) = Some (Inr [])"
  unfolding gather_def by (induction order) simp_all

text \<open>
  C1, as the code has it. A status other than 200 gives the empty value at every stage:
  the empty list from \<^verbatim>\<open>search_bing\<close>, the empty string from \<^verbatim>\<open>fetch_webpage_content\<close>
  and from \<^verbatim>\<open>summarize_with_gemini\<close>, and the empty string from the Orchestrator when
  both services answer so. \<^verbatim>\<open>fetch_webpage_content\<close> also turns every exception of its
  body into the empty string.
\<close>

theorem non_success_status_gives_empty:
  "(http w (search_request self query) = Inr resp \<and> status resp \<noteq> 200 \<longrightarrow>
      search_bing self w query = Inr [])
   \<and> (fetch_webpage_content_try w url = Inl e \<longrightarrow> fetch_webpage_content w url = Inr '''')
   \<and> (http w (page_request url) = Inr resp \<and> status resp \<noteq> 200 \<longrightarrow>
        fetch_webpage_content w url = Inr '''')
   \<and> (http w (summarize_request self text) = Inr resp \<and> status resp \<noteq> 200 \<longrightarrow>
        summarize_with_gemini self w text = Inr (JStr ''''))
   \<and> (http w (search_request self query) = Inr resp \<and> status resp \<noteq> 200
        \<and> http w (summarize_request self '''') = Inr resp' \<and> status resp' \<noteq> 200 \<longrightarrow>
        research_and_summarize self w order query = Some (Inr (JStr '''')))"
proof (intro conjI impI)
  assume "http w (search_request self query) = Inr resp \<and> status resp \<noteq> 200"
  then show "search_bing self w query = Inr []"
    by (simp add: search_bing_def)
next
  assume "fetch_webpage_content_try w url = Inl e"
  then show "fetch_webpage_content w url = Inr ''''"
    by (simp add: fetch_webpage_content_def)
next
  assume "http w (page_request url) = Inr resp \<and> status resp \<noteq> 200"
  then show "fetch_webpage_content w url = Inr ''''"
    by (simp add: fetch_webpage_content_def fetch_webpage_content_try_def)
next
  assume "http w (summarize_request self text) = Inr resp \<and> status resp \<noteq> 200"
  then show "summarize_with_gemini self w text = Inr (JStr '''')"
    by (simp add: summarize_with_gemini_def)
next
  assume a: "http w (search_request self query) = Inr resp \<and> status resp \<noteq> 200
        \<and> http w (summarize_request self '''') = Inr resp' \<and> status resp' \<noteq> 200"
  then have "search_bing self w query = Inr []"
    by (simp add: search_bing_def)
  moreover have "parallel_webpage_scraping w order [] = Some (Inr '''')"
    by (simp add: parallel_webpage_scraping_def gather_nothing)
  moreover have "summarize_with_gemini self w '''' = Inr (JStr '''')"
    using a by (simp add: summarize_with_gemini_def)
  ultimately show "research_and_summarize self w order query = Some (Inr (JStr ''''))"
    by (simp add: research_and_summarize_def research_and_summarize_body_def)
qed

theorem non_success_status_gives_empty_witness:
  "search_bing an_assistant (answering (Inr unavailable)) ''test'' = Inr []
   \<and> fetch_webpage_content (answering (Inl TimeoutError)) (JStr ''http://a'') = Inr ''''
   \<and> fetch_webpage_content (answering (Inr unavailable)) (JStr ''http://a'') = Inr ''''
   \<and> summarize_with_gemini an_assistant (answering (Inr unavailable)) ''some text''
       = Inr (JStr '''')
   \<and> research_and_summarize an_assistant (answering (Inr unavailable)) [] ''test''
       = Some (Inr (JStr ''''))"
proof -
  let ?w = "answering (Inr unavailable)"
  have h: "http ?w req = Inr unavailable" "status unavailable \<noteq> 200" for req
    by (simp_all add: answering_def unavailable_def)
  have t: "fetch_webpage_content_try (answering (Inl TimeoutError)) (JStr ''http://a'')
           = Inl TimeoutError"
    by (simp add: fetch_webpage_content_try_def answering_def)
  show ?thesis
    using non_success_status_gives_empty
            [of ?w an_assistant "''test''" unavailable "JStr ''http://a''" _ "''some text''"
                unavailable "[]"]
          non_success_status_gives_empty
            [of "answering (Inl TimeoutError)" _ _ _ "JStr ''http://a''" TimeoutError]
          h t
    by simp
qed

text \<open>
  C1, as the claim states it, fails: \<^verbatim>\<open>search_bing\<close> and \<^verbatim>\<open>summarize_with_gemini\<close> have
  no handler, so a failed request, a body that is not JSON and a JSON value of another
  shape raise, and the Orchestrator passes the exception on.
\<close>

theorem search_and_summarize_raise:
  "search_bing an_assistant (answering (Inl ClientError)) ''test'' = Inl ClientError
   \<and> search_bing an_assistant
        (answering (Inr \<lparr> status = 200, body_text = Inr ''<html>'',
                          body_json = Inl JSONDecodeError \<rparr>)) ''test'' = Inl JSONDecodeError
   \<and> search_bing an_assistant (answering (Inr (json_response 200 (JList [])))) ''test''
       = Inl AttributeError
   \<and> summarize_with_gemini an_assistant (answering (Inl RequestException)) ''some text''
       = Inl RequestException
   \<and> summarize_with_gemini an_assistant (answering (Inr (json_response 200 (JDict []))))
        ''some text'' = Inl KeyError
   \<and> research_and_summarize an_assistant (answering (Inl ClientError)) [] ''test''
       = Some (Inl ClientError)"
  by (simp add: search_bing_def summarize_with_gemini_def research_and_summarize_def
        research_and_summarize_body_def answering_def json_response_def)

end
